theory Spec2Isabelle
  imports Main "HOL-Library.Sublist"
begin

section \<open>A multi-client TCP server: the class Server of Server.h and Server.cpp\<close>

text \<open>
  The program has three kinds of threads. The main thread constructs the Server, runs
  startServer (which runs startListening, the accept loop) and finally the destructor.
  The constructor starts one consumer thread running handleMessageQueue. Every iteration
  of the accept loop starts one handler thread running handleClient.

  The model is a transition system. A thread is a program counter that names the source
  line the thread executes next, together with its local variables; one transition
  executes one statement of one thread. Every value that the operating system or the
  operator supplies (the result of socket, bind, listen, accept, pthread_create and recv,
  the bytes received, the answer typed at the prompt, the contents of uninitialised
  memory) is an argument of the transition, so the transition functions are executable.
  A transition that is not possible (a thread blocked on the mutex or in pthread_join,
  a result the operating system cannot give, behaviour the language leaves undefined)
  is the value None.

  Where C++ or POSIX leave the behaviour of the program open, the model takes the
  behaviour the program relies on:
  \<^item> the mutex, which the program never initialises, starts unlocked;
  \<^item> handleClient and the two wrappers are declared to return a pointer and have no
    return statement; reaching their end is the thread function returning;
  \<^item> the PosixThreadData whose address a new thread is given is a local variable of the
    body of the accept loop; the loop goes on without waiting for the thread, so the
    thread reads clientSoc when it starts and finds what the variable holds by then
    (every iteration uses the same place on the stack); once startListening has been
    left by an exception the place holds anything;
  \<^item> the emptiness test of line 134 is made without the mutex and can race with a
    push; it reads the queue as it is at that moment;
  \<^item> the text of one output statement reaches the stream in one piece.
\<close>

subsection \<open>Data\<close>

type_synonym message = "int \<times> string"
  \<comment> \<open>std::pair<int, std::string>; a string is a list of bytes\<close>

type_synonym TCPServerError = string
  \<comment> \<open>the exception class, which holds only its message\<close>

definition MAX_CLIENTS :: int where
  "MAX_CLIENTS = 10"

datatype tid = T_main | T_mq | T_hc nat
  \<comment> \<open>the main thread, the consumer thread, the n-th handler thread started\<close>

text \<open>
  Program counters of handleMessageQueue (Server.cpp lines 132 to 143). The local variable
  clientMessagePair exists from line 139 on and is carried by the program counter.
  There is no statement that leaves the outer loop; \<open>MQ_return\<close> stands for the thread
  function having returned.
\<close>

datatype mq_pc =
    MQ_empty            \<comment> \<open>line 134: while(messageQueue.empty())\<close>
  | MQ_usleep           \<comment> \<open>line 135: usleep(10000)\<close>
  | MQ_lock             \<comment> \<open>line 138: pthread_mutex_lock\<close>
  | MQ_front            \<comment> \<open>line 139: clientMessagePair = messageQueue.front()\<close>
  | MQ_pop message      \<comment> \<open>line 140: messageQueue.pop()\<close>
  | MQ_unlock message   \<comment> \<open>line 141: pthread_mutex_unlock\<close>
  | MQ_cout message     \<comment> \<open>line 142: std::cout << ...\<close>
  | MQ_return

text \<open>
  Program counters of a handler thread: handleClientWrapper (lines 219 and 220), then
  handleClient (lines 196 to 214).
\<close>

datatype hc_pc =
    HC_start     \<comment> \<open>lines 219 and 220: read threadData->clientSoc, call handleClient\<close>
  | HC_recv      \<comment> \<open>line 200: bytesRead = recv(...) and the test > 0\<close>
  | HC_lock      \<comment> \<open>line 202\<close>
  | HC_push      \<comment> \<open>line 203: messageQueue.push(std::make_pair(clientSocket, buffer))\<close>
  | HC_unlock    \<comment> \<open>line 204\<close>
  | HC_memset    \<comment> \<open>line 205\<close>
  | HC_report    \<comment> \<open>lines 208 to 211\<close>
  | HC_close     \<comment> \<open>line 213\<close>
  | HC_return

text \<open>
  The parameter and the local variables of handleClient. Before the wrapper has called
  handleClient (at \<open>HC_start\<close>) the parameter clientSocket has no value yet: the field
  holds 0 and nothing reads it.
\<close>

record handler =
  hc_at :: hc_pc
  clientSocket :: int
  buffer :: string       \<comment> \<open>char buffer[256]\<close>
  bytesRead :: int

text \<open>
  The local port of a socket: the port it was bound to, or, for a socket bound to port 0,
  a port the kernel picked (which one is not modelled; it is a new one at every bind).
\<close>

datatype port = Fixed int | Ephemeral

text \<open>
  Program counters of the main thread: startServer (lines 86 to 127) with startListening
  (lines 154 to 191) inlined at its only call, then the destructor (lines 39 to 58).
\<close>

datatype main_pc =
    M_listen                      \<comment> \<open>line 156: listen(serverSocket, MAX_CLIENTS)\<close>
  | M_accept                      \<comment> \<open>lines 169 to 189: one iteration of the accept loop\<close>
  | M_cin nat                     \<comment> \<open>lines 105 to 113: the answer loop, with its counter\<close>
  | M_returned                    \<comment> \<open>startServer has returned\<close>
  | M_uncaught TCPServerError     \<comment> \<open>an exception has left startServer\<close>
  | D_join "(int \<times> nat) list"     \<comment> \<open>lines 42 to 50: the entries still to be joined\<close>
  | D_joinMQ                      \<comment> \<open>line 52: pthread_join(messageQueueThread, NULL)\<close>
  | D_close                       \<comment> \<open>line 57: close(serverSocket)\<close>
  | D_done

text \<open>
  The fields of class Server. \<open>clientsMap\<close> is a std::map: a list of entries with unique
  keys in increasing key order, the order in which the destructor visits them. A
  pthread_t is the index of the thread in \<open>handlers\<close>. \<open>mutex\<close> holds its owner.
  The field serverAddr is written by createAndBindSocket and read only by the bind call
  that follows, and messageQueueThread is read only by the destructor's join; the model
  keeps what they determine (\<open>bound\<close>, \<open>mq_at\<close>) instead.
\<close>

record Server =
  serverPort :: int
  serverSocket :: int
  clientsMap :: "(int \<times> nat) list"
  messageQueue :: "message list"
  mutex :: "tid option"

text \<open>
  The whole system: the Server object, the threads, what the operating system knows about
  the descriptors, and the two output streams. \<open>threadData\<close> is the clientSoc of the
  loop-local PosixThreadData of startListening (line 180), None when that place on the
  stack holds anything. A connection returned by accept has the local port of the
  listening socket. The last three fields are history
  variables: they record the messages pushed, popped and printed so far; no transition
  reads them.
\<close>

record sys = Server +
  main_at :: main_pc
  mq_at :: mq_pc
  handlers :: "handler list"
  threadData :: "int option"
  open_fds :: "int set"
  bound :: "int \<rightharpoonup> port"        \<comment> \<open>descriptor to its local port\<close>
  listening :: "int \<rightharpoonup> int"     \<comment> \<open>descriptor to the backlog given to listen\<close>
  cout :: string
  cerr :: string
  enqueued :: "message list"
  dequeued :: "message list"
  reported :: "message list"

datatype outcome = Returns sys | Throws TCPServerError sys
  \<comment> \<open>a call returns, or throws with the state it leaves behind\<close>

subsection \<open>Library and system calls\<close>

text \<open>operator<< on an int writes its decimal digits, with a minus sign when negative.\<close>

fun dec_nat :: "nat \<Rightarrow> string" where
  "dec_nat n =
     (if n < 10 then [''0123456789'' ! n]
      else dec_nat (n div 10) @ [''0123456789'' ! (n mod 10)])"

declare dec_nat.simps [simp del]

definition dec_int :: "int \<Rightarrow> string" where
  "dec_int i = (if i < 0 then CHR ''-'' # dec_nat (nat (- i)) else dec_nat (nat i))"

definition endl :: string where
  "endl = [CHR 0x0A]"

definition NUL :: char where
  "NUL = CHR 0x00"

text \<open>
  std::string(const char*) copies the bytes before the first zero byte. When the array
  holds no zero byte the constructor reads past its end, which is undefined.
\<close>

definition c_str :: "string \<Rightarrow> string option" where
  "c_str buf = (if NUL \<in> set buf then Some (takeWhile (\<lambda>c. c \<noteq> NUL) buf) else None)"

text \<open>close: the descriptor is no longer open (closing one that is not open changes nothing).\<close>

definition close_fd :: "int \<Rightarrow> sys \<Rightarrow> sys" where
  "close_fd fd s =
     s\<lparr>open_fds := open_fds s - {fd},
       bound := (bound s)(fd := None),
       listening := (listening s)(fd := None)\<rparr>"

text \<open>clientsMap[k] = v on a std::map: overwrite the entry of k or insert it in key order.\<close>

fun map_assign :: "int \<Rightarrow> nat \<Rightarrow> (int \<times> nat) list \<Rightarrow> (int \<times> nat) list" where
  "map_assign k v [] = [(k, v)]"
| "map_assign k v ((k', v') # m) =
     (if k < k' then (k, v) # (k', v') # m
      else if k = k' then (k, v) # m
      else (k', v') # map_assign k v m)"

text \<open>
  What socket() and accept() can return: -1, or the lowest descriptor that is not open
  (POSIX allocates the lowest-numbered descriptor available). \<open>all_below n fds\<close> says
  that the descriptors 0 to n - 1 are all in \<open>fds\<close>.
\<close>

fun all_below :: "nat \<Rightarrow> int set \<Rightarrow> bool" where
  "all_below 0 fds = True"
| "all_below (Suc n) fds = (int n \<in> fds \<and> all_below n fds)"

definition fresh_fd :: "int \<Rightarrow> sys \<Rightarrow> bool" where
  "fresh_fd fd s =
     (fd = -1 \<or> (0 \<le> fd \<and> fd \<notin> open_fds s \<and> all_below (nat fd) (open_fds s)))"

text \<open>
  The port a socket gets when it is bound with sin_port = htons(p): p as a 16-bit value,
  or a port of the kernel's choice when that is 0.
\<close>

definition port_of :: "int \<Rightarrow> port" where
  "port_of p = (if p mod 65536 = 0 then Ephemeral else Fixed (p mod 65536))"

text \<open>
  What bind() can return: -1, or 0 when no open socket has the port as its local port
  (the program sets no SO_REUSEADDR, so a connection that is still open keeps the port of
  the listening socket it came from in use).
\<close>

definition port_free :: "port \<Rightarrow> sys \<Rightarrow> bool" where
  "port_free p s =
     (case p of
        Ephemeral \<Rightarrow> True
      | Fixed n \<Rightarrow> (\<forall>fd \<in> open_fds s. bound s fd \<noteq> Some (Fixed n)))"

definition bind_result :: "int \<Rightarrow> port \<Rightarrow> sys \<Rightarrow> bool" where
  "bind_result r p s = (r = -1 \<or> (r = 0 \<and> port_free p s))"


text \<open>
  What recv(clientSocket, buffer, 255, 0) can return: -1, or, on an open descriptor, a
  count from 0 to 255 together with that many bytes.
\<close>

definition recv_result :: "int \<Rightarrow> int \<Rightarrow> string \<Rightarrow> sys \<Rightarrow> bool" where
  "recv_result fd n data s =
     ((n = -1 \<and> data = []) \<or>
      (fd \<in> open_fds s \<and> 0 \<le> n \<and> n \<le> 255 \<and> int (length data) = n))"

subsection \<open>The consumer thread: handleMessageQueue\<close>

text \<open>
  One statement of the consumer. pthread_mutex_lock blocks while the mutex is held;
  front() and pop() on an empty queue are undefined. Line 134 reads the queue before
  line 138 takes the mutex.
\<close>

definition handleMessageQueue :: "sys \<Rightarrow> sys option" where
  "handleMessageQueue s =
     (case mq_at s of
        MQ_empty \<Rightarrow>
          Some (s\<lparr>mq_at := (if messageQueue s = [] then MQ_usleep else MQ_lock)\<rparr>)
      | MQ_usleep \<Rightarrow> Some (s\<lparr>mq_at := MQ_empty\<rparr>)
      | MQ_lock \<Rightarrow>
          (if mutex s = None then Some (s\<lparr>mutex := Some T_mq, mq_at := MQ_front\<rparr>)
           else None)
      | MQ_front \<Rightarrow>
          (case messageQueue s of
             [] \<Rightarrow> None
           | m # q \<Rightarrow> Some (s\<lparr>mq_at := MQ_pop m\<rparr>))
      | MQ_pop m \<Rightarrow>
          (case messageQueue s of
             [] \<Rightarrow> None
           | m' # q \<Rightarrow>
               Some (s\<lparr>messageQueue := q, mq_at := MQ_unlock m,
                      dequeued := dequeued s @ [m]\<rparr>))
      | MQ_unlock m \<Rightarrow> Some (s\<lparr>mutex := None, mq_at := MQ_cout m\<rparr>)
      | MQ_cout m \<Rightarrow>
          Some (s\<lparr>cout := cout s @ ''Message from Client '' @ dec_int (fst m) @ '' : '' @ snd m,
                 mq_at := MQ_empty,
                 reported := reported s @ [m]\<rparr>)
      | MQ_return \<Rightarrow> None)"

subsection \<open>A handler thread: handleClient\<close>

definition set_handler :: "nat \<Rightarrow> handler \<Rightarrow> sys \<Rightarrow> sys" where
  "set_handler i h s = s\<lparr>handlers := (handlers s)[i := h]\<rparr>"

text \<open>
  Lines 219 and 220: the thread starts, reads clientSoc through the pointer it was given
  and calls handleClient with it. \<open>v\<close> is the value read: what the variable of the accept
  loop holds now, or anything once that place on the stack has been given up.
\<close>

definition handleClientWrapper :: "nat \<Rightarrow> int \<Rightarrow> sys \<Rightarrow> sys option" where
  "handleClientWrapper i v s =
     (if i < length (handlers s) then
        (let h = handlers s ! i in
         if hc_at h = HC_start \<and> (threadData s = Some v \<or> threadData s = None) then
           Some (set_handler i (h\<lparr>clientSocket := v, hc_at := HC_recv\<rparr>) s)
         else None)
      else None)"

text \<open>
  Line 200. recv writes the bytes received at the start of the buffer and leaves the
  rest of the buffer as it was.
\<close>

definition handleClient_recv :: "nat \<Rightarrow> int \<Rightarrow> string \<Rightarrow> sys \<Rightarrow> sys option" where
  "handleClient_recv i n data s =
     (if i < length (handlers s) then
        (let h = handlers s ! i in
         if hc_at h = HC_recv \<and> recv_result (clientSocket h) n data s then
           Some (set_handler i
                  (h\<lparr>bytesRead := n,
                     buffer := (if 0 < n then data @ drop (length data) (buffer h)
                                else buffer h),
                     hc_at := (if 0 < n then HC_lock else HC_report)\<rparr>) s)
         else None)
      else None)"

text \<open>
  Lines 202 to 213, one statement at a time. Line 203 builds the std::string of the
  pair from the char array, that is, from the bytes before its first zero byte.
\<close>

definition handleClient :: "nat \<Rightarrow> sys \<Rightarrow> sys option" where
  "handleClient i s =
     (if i < length (handlers s) then
        (let h = handlers s ! i in
         case hc_at h of
           HC_start \<Rightarrow> None
         | HC_recv \<Rightarrow> None
         | HC_lock \<Rightarrow>
             (if mutex s = None
              then Some (set_handler i (h\<lparr>hc_at := HC_push\<rparr>) (s\<lparr>mutex := Some (T_hc i)\<rparr>))
              else None)
         | HC_push \<Rightarrow>
             (case c_str (buffer h) of
                None \<Rightarrow> None
              | Some payload \<Rightarrow>
                  Some (set_handler i (h\<lparr>hc_at := HC_unlock\<rparr>)
                         (s\<lparr>messageQueue := messageQueue s @ [(clientSocket h, payload)],
                            enqueued := enqueued s @ [(clientSocket h, payload)]\<rparr>)))
         | HC_unlock \<Rightarrow>
             Some (set_handler i (h\<lparr>hc_at := HC_memset\<rparr>) (s\<lparr>mutex := None\<rparr>))
         | HC_memset \<Rightarrow>
             Some (set_handler i (h\<lparr>buffer := replicate 256 NUL, hc_at := HC_recv\<rparr>) s)
         | HC_report \<Rightarrow>
             Some (set_handler i (h\<lparr>hc_at := HC_close\<rparr>)
                    (if bytesRead h \<le> 0
                     then s\<lparr>cout := cout s @ ''Client '' @ dec_int (clientSocket h)
                                     @ '' disconnected.'' @ endl\<rparr>
                     else s))
         | HC_close \<Rightarrow>
             Some (set_handler i (h\<lparr>hc_at := HC_return\<rparr>) (close_fd (clientSocket h) s))
         | HC_return \<Rightarrow> None)
      else None)"

subsection \<open>The main thread\<close>

text \<open>
  createAndBindSocket, lines 61 to 83, given the results of socket() and bind().
  sin_port is htons(serverPort).
\<close>

definition createAndBindSocket :: "int \<Rightarrow> int \<Rightarrow> sys \<Rightarrow> outcome" where
  "createAndBindSocket sock_res bind_res s =
     (let s1 = (close_fd (serverSocket s) s)\<lparr>serverSocket := sock_res\<rparr> in
      if sock_res = -1 then Throws ''Socket could not be created.'' s1
      else
        (let s2 = s1\<lparr>open_fds := insert sock_res (open_fds s1)\<rparr> in
         if bind_res = -1
         then Throws ''Unable to bind socket.'' (close_fd (serverSocket s2) s2)
         else Returns (s2\<lparr>bound := (bound s2)(serverSocket s2 \<mapsto> port_of (serverPort s2))\<rparr>)))"

text \<open>
  The object before the constructor's body runs: the port is stored, serverSocket holds
  whatever the memory held, the containers are empty. The mutex is never initialised by
  the program; it is taken to start unlocked. \<open>ofds\<close> are the descriptors open in the
  process.
\<close>

definition blank :: "int \<Rightarrow> int \<Rightarrow> int set \<Rightarrow> sys" where
  "blank Port garbage ofds =
     \<lparr>serverPort = Port, serverSocket = garbage, clientsMap = [], messageQueue = [],
      mutex = None, main_at = M_listen, mq_at = MQ_empty, handlers = [],
      threadData = None,
      open_fds = ofds, bound = Map.empty, listening = Map.empty,
      cout = [], cerr = [], enqueued = [], dequeued = [], reported = []\<rparr>"

text \<open>
  The constructor, lines 19 to 36: \<open>create_ok\<close> says whether pthread_create started the
  consumer thread. When it returns, the consumer is at its first statement and the main
  thread goes on to startServer.
\<close>

definition Server_ctor :: "int \<Rightarrow> int \<Rightarrow> bool \<Rightarrow> sys \<Rightarrow> outcome" where
  "Server_ctor sock_res bind_res create_ok s =
     (case createAndBindSocket sock_res bind_res s of
        Throws ex s1 \<Rightarrow> Throws ex (close_fd (serverSocket s1) s1)
      | Returns s1 \<Rightarrow>
          if create_ok then Returns s1
          else Throws ''Message Queue Thread could not be created.''
                 (close_fd (serverSocket s1) s1))"

text \<open>
  Lines 97 to 104: startServer catches what startListening throws, prints it, prints the
  prompt and enters the answer loop with counter 0. The stack of startListening has been
  given up.
\<close>

definition caught :: "TCPServerError \<Rightarrow> sys \<Rightarrow> sys" where
  "caught ex s =
     s\<lparr>threadData := None,
       cerr := cerr s @ ex @ endl,
       cout := cout s @ ''Do you want to try to start the server again? [Y/N]'',
       main_at := M_cin 0\<rparr>"

text \<open>Lines 156 to 161: listen succeeds (0) only on an open socket, or fails (-1).\<close>

definition startListening_listen :: "int \<Rightarrow> sys \<Rightarrow> sys option" where
  "startListening_listen r s =
     (if main_at s = M_listen \<and> (r = -1 \<or> (r = 0 \<and> serverSocket s \<in> open_fds s)) then
        (if r = -1 then Some (caught ''Listening error.'' s)
         else Some (s\<lparr>listening := (listening s)(serverSocket s \<mapsto> MAX_CLIENTS),
                      cout := cout s @ ''Server is listening for connections on Port ''
                                @ dec_int (serverPort s) @ endl,
                      main_at := M_accept\<rparr>))
      else None)"

text \<open>
  Lines 169 to 189, one iteration of the accept loop: \<open>fd\<close> is what accept returned,
  \<open>create_ok\<close> whether pthread_create started the thread, \<open>buf\<close> what the new thread's
  uninitialised buffer will hold. Line 180 stores fd in the loop's PosixThreadData and
  line 181 gives the new thread its address, not the value. The statement after the
  throw on line 183 is never reached.
\<close>

definition startListening_accept :: "int \<Rightarrow> bool \<Rightarrow> string \<Rightarrow> sys \<Rightarrow> sys option" where
  "startListening_accept fd create_ok buf s =
     (if main_at s = M_accept \<and> fresh_fd fd s \<and> length buf = 256 then
        (let s1 = (if fd = -1
                   then s\<lparr>cerr := cerr s @ ''Failed to accept request from a client.'' @ endl\<rparr>
                   else s\<lparr>open_fds := insert fd (open_fds s),
                          bound := (bound s)(fd := bound s (serverSocket s)),
                          cout := cout s @ ''Client '' @ dec_int fd @ '' connected.'' @ endl\<rparr>);
             s2 = s1\<lparr>threadData := Some fd\<rparr>
         in if create_ok
            then Some (s2\<lparr>handlers := handlers s2 @
                              [\<lparr>hc_at = HC_start, clientSocket = 0, buffer = buf, bytesRead = 0\<rparr>],
                           clientsMap := map_assign fd (length (handlers s2)) (clientsMap s2)\<rparr>)
            else Some (caught ''Thread could not be created.'' s2))
      else None)"

text \<open>
  Lines 105 to 126: one round of the answer loop and, on a valid answer, the decision.
  \<open>ans\<close> is the word read from std::cin; \<open>sock_res\<close> and \<open>bind_res\<close> are used only when
  the answer is yes. createAndBindSocket is called outside the try block, so what it
  throws leaves startServer.
\<close>

definition startServer_cin :: "string \<Rightarrow> int \<Rightarrow> int \<Rightarrow> sys \<Rightarrow> sys option" where
  "startServer_cin ans sock_res bind_res s =
     (case main_at s of
        M_cin counter \<Rightarrow>
          (let s1 = (if 1 \<le> counter
                     then s\<lparr>cout := cout s @ ''Invalid answer, please enter your answer again: ''\<rparr>
                     else s)
           in if ans = ''Y'' \<or> ans = ''y'' then
                (let s2 = s1\<lparr>clientsMap := []\<rparr> in
                 if fresh_fd sock_res (close_fd (serverSocket s2) s2)
                    \<and> bind_result bind_res (port_of (serverPort s2))
                          (close_fd (serverSocket s2) s2)
                 then (case createAndBindSocket sock_res bind_res s2 of
                         Returns s3 \<Rightarrow> Some (s3\<lparr>main_at := M_listen\<rparr>)
                       | Throws ex s3 \<Rightarrow> Some (s3\<lparr>main_at := M_uncaught ex\<rparr>))
                 else None)
              else if ans = ''N'' \<or> ans = ''n'' then
                Some (s1\<lparr>cout := cout s1 @ ''Server is shutting down.'' @ endl,
                        main_at := M_returned\<rparr>)
              else Some (s1\<lparr>main_at := M_cin (counter + 1)\<rparr>))
      | _ \<Rightarrow> None)"

text \<open>
  The destructor, lines 39 to 58, entered once startServer is over. pthread_join returns
  only when the thread joined has returned from its thread function; it then succeeds,
  every handle in the map being that of a thread the accept loop started.
\<close>

definition Server_dtor :: "sys \<Rightarrow> sys option" where
  "Server_dtor s =
     (case main_at s of
        M_returned \<Rightarrow> Some (s\<lparr>main_at := D_join (clientsMap s)\<rparr>)
      | M_uncaught ex \<Rightarrow> Some (s\<lparr>main_at := D_join (clientsMap s)\<rparr>)
      | D_join todo \<Rightarrow>
          (case todo of
             [] \<Rightarrow> Some (s\<lparr>main_at := D_joinMQ\<rparr>)
           | entry # rest \<Rightarrow>
               (if snd entry < length (handlers s)
                   \<and> hc_at (handlers s ! snd entry) = HC_return
                then Some ((close_fd (fst entry) s)\<lparr>main_at := D_join rest\<rparr>)
                else None))
      | D_joinMQ \<Rightarrow> (if mq_at s = MQ_return then Some (s\<lparr>main_at := D_close\<rparr>) else None)
      | D_close \<Rightarrow> Some ((close_fd (serverSocket s) s)\<lparr>main_at := D_done\<rparr>)
      | _ \<Rightarrow> None)"

subsection \<open>The transition system\<close>

datatype action =
    MQ                        \<comment> \<open>the consumer executes its next statement\<close>
  | Start nat int             \<comment> \<open>handler i starts and reads the descriptor it is to serve\<close>
  | Recv nat int string       \<comment> \<open>handler i returns from recv with a count and bytes\<close>
  | HC nat                    \<comment> \<open>handler i executes its next statement\<close>
  | Listen int                \<comment> \<open>the main thread calls listen, with its result\<close>
  | Accept int bool string    \<comment> \<open>the main thread runs one iteration of the accept loop\<close>
  | Cin string int int        \<comment> \<open>the main thread reads an answer\<close>
  | Dtor                      \<comment> \<open>the main thread executes a step of the destructor\<close>

definition step :: "action \<Rightarrow> sys \<Rightarrow> sys option" where
  "step a s =
     (case a of
        MQ \<Rightarrow> handleMessageQueue s
      | Start i v \<Rightarrow> handleClientWrapper i v s
      | Recv i n data \<Rightarrow> handleClient_recv i n data s
      | HC i \<Rightarrow> handleClient i s
      | Listen r \<Rightarrow> startListening_listen r s
      | Accept fd create_ok buf \<Rightarrow> startListening_accept fd create_ok buf s
      | Cin ans sock_res bind_res \<Rightarrow> startServer_cin ans sock_res bind_res s
      | Dtor \<Rightarrow> Server_dtor s)"

fun run :: "action list \<Rightarrow> sys \<Rightarrow> sys option" where
  "run [] s = Some s"
| "run (a # as) s = (case step a s of None \<Rightarrow> None | Some s' \<Rightarrow> run as s')"

subsection \<open>Example executions\<close>

text \<open>
  The server on port 9000 once its constructor has returned: socket() gave descriptor 3,
  bind() succeeded, the consumer thread was started, and 0, 1 and 2 were open before.
\<close>

definition boot :: sys where
  "boot =
     \<lparr>serverPort = 9000, serverSocket = 3, clientsMap = [], messageQueue = [],
      mutex = None, main_at = M_listen, mq_at = MQ_empty, handlers = [],
      threadData = None,
      open_fds = {0, 1, 2, 3}, bound = [3 \<mapsto> Fixed 9000], listening = Map.empty,
      cout = [], cerr = [], enqueued = [], dequeued = [], reported = []\<rparr>"

text \<open>
  Two clients connect (descriptors 4 and 5), the handler of each starts before the next
  accept returns, each client sends one line, and the consumer reports both.
\<close>

definition two_clients :: "action list" where
  "two_clients =
     [Listen 0,
      Accept 4 True (replicate 256 NUL), Start 0 4,
      Accept 5 True (replicate 256 NUL), Start 1 5,
      Recv 0 6 (''hello'' @ endl), HC 0, HC 0, HC 0, HC 0,
      Recv 1 6 (''world'' @ endl), HC 1, HC 1, HC 1, HC 1,
      MQ, MQ, MQ, MQ, MQ, MQ,
      MQ, MQ, MQ, MQ, MQ, MQ]"

text \<open>
  Eleven clients connect and none disconnects; the handler of each starts before the
  next accept returns.
\<close>

definition eleven_clients :: "action list" where
  "eleven_clients =
     Listen 0 #
     concat (map (\<lambda>(i, fd). [Accept fd True (replicate 256 NUL), Start i fd])
       [(0, 4), (1, 5), (2, 6), (3, 7), (4, 8), (5, 9), (6, 10), (7, 11), (8, 12),
        (9, 13), (10, 14)])"


text \<open>
  A client connects and stays; the thread for the next client cannot be created, so that
  client's descriptor 5 stays open too, and the server waits at the prompt.
\<close>

definition stuck_run :: "action list" where
  "stuck_run =
     [Listen 0, Accept 4 True (replicate 256 NUL), Start 0 4,
      Accept 5 False (replicate 256 NUL)]"

text \<open>
  A client connects and disconnects, the next handler thread cannot be created, the
  operator answers N, and the destructor runs as far as it can.
\<close>

definition shutdown_run :: "action list" where
  "shutdown_run =
     [Listen 0, Accept 4 True (replicate 256 NUL), Start 0 4,
      Recv 0 0 [], HC 0, HC 0,
      Accept 4 False (replicate 256 NUL),
      Cin ''N'' 0 0,
      Dtor, Dtor, Dtor]"

subsection \<open>Notions the properties are stated with\<close>

text \<open>The number of connections in the registry whose socket is open.\<close>

definition live_connections :: "sys \<Rightarrow> nat" where
  "live_connections s = card (fst ` set (clientsMap s) \<inter> open_fds s)"

text \<open>
  The thread that performs an action, and whether the statement the action executes
  reads or writes messageQueue: lines 134, 139 and 140 in the consumer, line 203 in a
  handler. No statement of the main thread touches the queue.
\<close>

definition actor :: "action \<Rightarrow> tid" where
  "actor a =
     (case a of
        MQ \<Rightarrow> T_mq | Start i v \<Rightarrow> T_hc i | Recv i n data \<Rightarrow> T_hc i | HC i \<Rightarrow> T_hc i
      | _ \<Rightarrow> T_main)"

definition accesses_queue :: "action \<Rightarrow> sys \<Rightarrow> bool" where
  "accesses_queue a s =
     (case a of
        MQ \<Rightarrow> (case mq_at s of
                 MQ_empty \<Rightarrow> True | MQ_front \<Rightarrow> True | MQ_pop m \<Rightarrow> True | _ \<Rightarrow> False)
      | HC i \<Rightarrow> i < length (handlers s) \<and> hc_at (handlers s ! i) = HC_push
      | _ \<Rightarrow> False)"

text \<open>
  The part of the state the consumer and the queue live in. The main thread never
  changes it, and a handler changes it only when it pushes.
\<close>

definition queue_view ::
  "sys \<Rightarrow> message list \<times> message list \<times> message list \<times> message list \<times> mq_pc" where
  "queue_view s = (messageQueue s, enqueued s, dequeued s, reported s, mq_at s)"

text \<open>
  The invariant behind first in, first out: what was pushed is what was popped followed
  by what is still queued; what was popped is what was printed followed by the message
  the consumer holds but has not printed yet; from the moment the emptiness test has
  failed until the pop the queue is not empty (only the consumer removes messages); and
  between lines 139 and 140 the copy the consumer took is still the head of the queue.
\<close>

definition pending :: "mq_pc \<Rightarrow> message list" where
  "pending pc = (case pc of MQ_unlock m \<Rightarrow> [m] | MQ_cout m \<Rightarrow> [m] | _ \<Rightarrow> [])"

definition fifo_inv :: "sys \<Rightarrow> bool" where
  "fifo_inv s =
     (enqueued s = dequeued s @ messageQueue s \<and>
      dequeued s = reported s @ pending (mq_at s) \<and>
      (case mq_at s of
         MQ_lock \<Rightarrow> messageQueue s \<noteq> []
       | MQ_front \<Rightarrow> messageQueue s \<noteq> []
       | MQ_pop m \<Rightarrow> messageQueue s \<noteq> [] \<and> hd (messageQueue s) = m
       | _ \<Rightarrow> True))"

text \<open>The consumer has not returned and the destructor has not got past line 52.\<close>

definition never_inv :: "sys \<Rightarrow> bool" where
  "never_inv s = (mq_at s \<noteq> MQ_return \<and> main_at s \<noteq> D_close \<and> main_at s \<noteq> D_done)"

text \<open>
  Mutual exclusion: the statements between lock and unlock (lines 139 to 141 and 203 to
  204) are executed by the owner of the mutex and by no other thread.
\<close>

definition in_cs_mq :: "mq_pc \<Rightarrow> bool" where
  "in_cs_mq pc = (case pc of MQ_front \<Rightarrow> True | MQ_pop m \<Rightarrow> True | MQ_unlock m \<Rightarrow> True | _ \<Rightarrow> False)"

definition in_cs_hc :: "hc_pc \<Rightarrow> bool" where
  "in_cs_hc pc = (pc = HC_push \<or> pc = HC_unlock)"

definition mutex_ok :: "tid option \<Rightarrow> mq_pc \<Rightarrow> handler list \<Rightarrow> bool" where
  "mutex_ok m pc hs =
     (case m of
        None \<Rightarrow> \<not> in_cs_mq pc \<and> (\<forall>j < length hs. \<not> in_cs_hc (hc_at (hs ! j)))
      | Some T_main \<Rightarrow> False
      | Some T_mq \<Rightarrow> in_cs_mq pc \<and> (\<forall>j < length hs. \<not> in_cs_hc (hc_at (hs ! j)))
      | Some (T_hc i) \<Rightarrow>
          \<not> in_cs_mq pc \<and> i < length hs \<and>
          (\<forall>j < length hs. in_cs_hc (hc_at (hs ! j)) = (j = i)))"

definition mutex_inv :: "sys \<Rightarrow> bool" where
  "mutex_inv s = mutex_ok (mutex s) (mq_at s) (handlers s)"

definition lock_view :: "sys \<Rightarrow> tid option \<times> mq_pc \<times> handler list" where
  "lock_view s = (mutex s, mq_at s, handlers s)"

section \<open>Proofs\<close>

subsection \<open>Evaluating the model\<close>

lemmas sem = step_def handleMessageQueue_def handleClientWrapper_def handleClient_def
  handleClient_recv_def startListening_listen_def startListening_accept_def
  startServer_cin_def Server_dtor_def createAndBindSocket_def caught_def close_fd_def
  set_handler_def fresh_fd_def port_of_def port_free_def bind_result_def recv_result_def
  Let_def

lemma boot_ctor: "Server_ctor 3 0 True (blank 9000 (- 1) {0, 1, 2}) = Returns boot"
  by (auto simp: Server_ctor_def createAndBindSocket_def close_fd_def blank_def boot_def
      port_of_def Let_def)

lemma Char_eq_NUL:
  "(Char b0 b1 b2 b3 b4 b5 b6 b7 = NUL) =
     (\<not> b0 \<and> \<not> b1 \<and> \<not> b2 \<and> \<not> b3 \<and> \<not> b4 \<and> \<not> b5 \<and> \<not> b6 \<and> \<not> b7)"
  by (simp add: NUL_def)

lemma c_str_Cons:
  "c_str (c # cs) = (if c = NUL then Some [] else map_option ((#) c) (c_str cs))"
  by (simp add: c_str_def)

lemma c_str_zeros: "0 < n \<Longrightarrow> c_str (replicate n NUL) = Some []"
  by (cases n) (simp_all add: c_str_def)

lemma c_str_padded:
  "0 < n \<Longrightarrow> c_str (data @ replicate n NUL) = Some (takeWhile (\<lambda>c. c \<noteq> NUL) data)"
  by (induction data) (simp_all add: c_str_Cons c_str_zeros)

lemma all_below_numeral:
  "all_below (numeral k) fds =
     (int (pred_numeral k) \<in> fds \<and> all_below (pred_numeral k) fds)"
  by (simp add: numeral_eq_Suc)

lemmas eval = sem all_below_numeral endl_def Char_eq_NUL c_str_Cons c_str_zeros dec_int_def
  dec_nat.simps MAX_CLIENTS_def

lemma dec_int_examples:
  "dec_int 4 = ''4''" "dec_int (- 1) = ''-1''" "dec_int 9000 = ''9000''"
  by (simp_all add: dec_int_def dec_nat.simps)

lemma map_of_map_assign: "map_of (map_assign k v m) k = Some v"
  by (induction m) auto

lemma keys_map_assign: "fst ` set (map_assign k v m) = insert k (fst ` set m)"
proof -
  have "set (map fst (map_assign k v m)) = insert k (set (map fst m))"
    by (induction k v m rule: map_assign.induct) auto
  then show ?thesis by simp
qed

lemma live_connections_accept:
  assumes "fd \<notin> fds"
  shows "card (fst ` set (map_assign fd v m) \<inter> insert fd fds) = Suc (card (fst ` set m \<inter> fds))"
proof -
  have "fst ` set (map_assign fd v m) \<inter> insert fd fds = insert fd (fst ` set m \<inter> fds)"
    by (auto simp: keys_map_assign)
  moreover have "finite (fst ` set m \<inter> fds)" and "fd \<notin> fst ` set m \<inter> fds"
    using assms by auto
  ultimately show ?thesis by simp
qed

lemma two_clients_run:
  "\<exists>s. run two_clients boot = Some s \<and>
       reported s = [(4, ''hello'' @ endl), (5, ''world'' @ endl)] \<and>
       cout s = ''Server is listening for connections on Port 9000'' @ endl @
                ''Client 4 connected.'' @ endl @ ''Client 5 connected.'' @ endl @
                ''Message from Client 4 : hello'' @ endl @
                ''Message from Client 5 : world'' @ endl"
  by (simp add: two_clients_def boot_def eval)

text \<open>
  The buffer of handleClient is not initialised. On the first read the bytes the stack
  held after the bytes received, up to the first zero byte, become part of the payload.
\<close>

lemma first_read_takes_stale_bytes:
  "map_option messageQueue
     (run [Listen 0, Accept 4 True (''??XY'' @ replicate 252 NUL), Start 0 4,
           Recv 0 2 ''hi'', HC 0, HC 0] boot)
     = Some [(4, ''hiXY'')]"
  by (simp add: boot_def eval)

text \<open>
  A handler that starts late reads the descriptor of a later connection: here both
  handlers serve descriptor 5 and none serves descriptor 4.
\<close>

lemma late_start_reads_next_descriptor:
  "map_option (map clientSocket \<circ> handlers)
     (run [Listen 0, Accept 4 True (replicate 256 NUL), Accept 5 True (replicate 256 NUL),
           Start 0 5, Start 1 5] boot)
     = Some [5, 5] \<and>
   run [Listen 0, Accept 4 True (replicate 256 NUL), Accept 5 True (replicate 256 NUL),
        Start 0 4] boot = None"
  by (simp add: boot_def eval)

text \<open>
  While a connection of the previous run is open, port 9000 is in use: after
  \<open>stuck_run\<close> an answer Y cannot have bind() succeed; bind() fails and the exception
  leaves startServer.
\<close>

lemma restart_with_open_connections:
  "Option.bind (run stuck_run boot) (step (Cin ''Y'' 3 0)) = None \<and>
   map_option main_at (Option.bind (run stuck_run boot) (step (Cin ''Y'' 3 (- 1))))
     = Some (M_uncaught ''Unable to bind socket.'')"
  by (auto simp: stuck_run_def boot_def eval)

subsection \<open>What each transition leaves unchanged\<close>

lemma queue_view_update [simp]:
  "queue_view (s\<lparr>cout := a\<rparr>) = queue_view s"
  "queue_view (s\<lparr>cerr := a\<rparr>) = queue_view s"
  "queue_view (s\<lparr>main_at := b\<rparr>) = queue_view s"
  "queue_view (s\<lparr>clientsMap := c\<rparr>) = queue_view s"
  "queue_view (s\<lparr>handlers := d\<rparr>) = queue_view s"
  "queue_view (s\<lparr>threadData := t\<rparr>) = queue_view s"
  "queue_view (s\<lparr>open_fds := e\<rparr>) = queue_view s"
  "queue_view (s\<lparr>listening := f\<rparr>) = queue_view s"
  "queue_view (s\<lparr>bound := g\<rparr>) = queue_view s"
  "queue_view (s\<lparr>serverSocket := h\<rparr>) = queue_view s"
  "queue_view (s\<lparr>mutex := i\<rparr>) = queue_view s"
  by (simp_all add: queue_view_def)

lemma queue_view_close_fd [simp]: "queue_view (close_fd fd s) = queue_view s"
  by (simp add: close_fd_def)

lemma queue_view_set_handler [simp]: "queue_view (set_handler i h s) = queue_view s"
  by (simp add: set_handler_def)

lemma queue_view_caught [simp]: "queue_view (caught ex s) = queue_view s"
  by (simp add: caught_def)

lemma createAndBindSocket_Returns_view:
  "createAndBindSocket sr br s = Returns s' \<Longrightarrow> queue_view s' = queue_view s"
  by (auto simp: createAndBindSocket_def Let_def split: if_splits)

lemma createAndBindSocket_Throws_view:
  "createAndBindSocket sr br s = Throws ex s' \<Longrightarrow> queue_view s' = queue_view s"
  by (auto simp: createAndBindSocket_def Let_def split: if_splits)

lemma listen_view: "startListening_listen r s = Some s' \<Longrightarrow> queue_view s' = queue_view s"
  by (auto simp: startListening_listen_def split: if_splits)

lemma accept_view:
  "startListening_accept fd ok buf s = Some s' \<Longrightarrow> queue_view s' = queue_view s"
  by (auto simp: startListening_accept_def Let_def split: if_splits)

lemma cin_view: "startServer_cin ans sr br s = Some s' \<Longrightarrow> queue_view s' = queue_view s"
  unfolding startServer_cin_def Let_def
  by (auto split: main_pc.splits if_splits outcome.splits
      dest!: createAndBindSocket_Returns_view createAndBindSocket_Throws_view)

lemma dtor_view: "Server_dtor s = Some s' \<Longrightarrow> queue_view s' = queue_view s"
  by (auto simp: Server_dtor_def split: main_pc.splits list.splits if_splits)

lemma recv_view: "handleClient_recv i n data s = Some s' \<Longrightarrow> queue_view s' = queue_view s"
  by (auto simp: handleClient_recv_def Let_def split: if_splits)

lemma start_view: "handleClientWrapper i v s = Some s' \<Longrightarrow> queue_view s' = queue_view s"
  by (auto simp: handleClientWrapper_def Let_def split: if_splits)

lemma ctor_view:
  "Server_ctor sr br ok (blank Port g ofds) = Returns s0 \<Longrightarrow>
   queue_view s0 = ([], [], [], [], MQ_empty)"
  by (auto simp: Server_ctor_def split: outcome.splits if_splits
      dest!: createAndBindSocket_Returns_view)
     (simp add: queue_view_def blank_def)

lemma handleClient_view:
  assumes "handleClient i s = Some s'" and "hc_at (handlers s ! i) \<noteq> HC_push"
  shows "queue_view s' = queue_view s"
  using assms unfolding handleClient_def Let_def
  by (auto split: if_splits hc_pc.splits)

lemma handleClient_push:
  assumes "handleClient i s = Some s'" and "hc_at (handlers s ! i) = HC_push"
  shows "\<exists>m. queue_view s' =
           (messageQueue s @ [m], enqueued s @ [m], dequeued s, reported s, mq_at s)"
  using assms unfolding handleClient_def Let_def
  by (auto split: if_splits option.splits simp: queue_view_def set_handler_def)

subsection \<open>The queue invariant\<close>

lemma fifo_inv_view: "queue_view s' = queue_view s \<Longrightarrow> fifo_inv s' = fifo_inv s"
  by (simp add: queue_view_def fifo_inv_def cong: mq_pc.case_cong)

lemma fifo_handleMessageQueue: "fifo_inv s \<Longrightarrow> handleMessageQueue s = Some s' \<Longrightarrow> fifo_inv s'"
  by (auto simp: fifo_inv_def handleMessageQueue_def pending_def
      split: mq_pc.splits list.splits if_splits)

lemma fifo_push:
  assumes "fifo_inv s"
    and "queue_view s' = (messageQueue s @ [m], enqueued s @ [m], dequeued s, reported s, mq_at s)"
  shows "fifo_inv s'"
  using assms by (auto simp: fifo_inv_def queue_view_def split: mq_pc.splits)

lemma fifo_handleClient:
  assumes "fifo_inv s" and "handleClient i s = Some s'"
  shows "fifo_inv s'"
proof (cases "hc_at (handlers s ! i) = HC_push")
  case True
  from handleClient_push [OF assms(2) True] assms(1) show ?thesis
    by (blast intro: fifo_push)
next
  case False
  from fifo_inv_view [OF handleClient_view [OF assms(2) False]] assms(1) show ?thesis
    by blast
qed

lemma fifo_step:
  assumes "fifo_inv s" and "step a s = Some s'"
  shows "fifo_inv s'"
proof (cases a)
  case MQ
  with assms show ?thesis by (auto simp: step_def intro: fifo_handleMessageQueue)
next
  case (Start i v)
  with assms(2) have "queue_view s' = queue_view s"
    by (auto simp: step_def intro: start_view)
  from fifo_inv_view [OF this] assms(1) show ?thesis by blast
next
  case (Recv i n data)
  with assms(2) have "queue_view s' = queue_view s"
    by (auto simp: step_def intro: recv_view)
  from fifo_inv_view [OF this] assms(1) show ?thesis by blast
next
  case (HC i)
  with assms show ?thesis by (auto simp: step_def intro: fifo_handleClient)
next
  case (Listen r)
  with assms(2) have "queue_view s' = queue_view s"
    by (auto simp: step_def intro: listen_view)
  from fifo_inv_view [OF this] assms(1) show ?thesis by blast
next
  case (Accept fd ok buf)
  with assms(2) have "queue_view s' = queue_view s"
    by (auto simp: step_def intro: accept_view)
  from fifo_inv_view [OF this] assms(1) show ?thesis by blast
next
  case (Cin ans sr br)
  with assms(2) have "queue_view s' = queue_view s"
    by (auto simp: step_def intro: cin_view)
  from fifo_inv_view [OF this] assms(1) show ?thesis by blast
next
  case Dtor
  with assms(2) have "queue_view s' = queue_view s"
    by (auto simp: step_def intro: dtor_view)
  from fifo_inv_view [OF this] assms(1) show ?thesis by blast
qed

lemma fifo_run: "fifo_inv s \<Longrightarrow> run acts s = Some s' \<Longrightarrow> fifo_inv s'"
  by (induction acts arbitrary: s) (auto split: option.splits dest: fifo_step)

lemma fifo_ctor: "Server_ctor sr br ok (blank Port g ofds) = Returns s0 \<Longrightarrow> fifo_inv s0"
  by (drule ctor_view) (simp add: fifo_inv_def queue_view_def pending_def)

subsection \<open>The consumer and the destructor\<close>

lemma view_mq_at: "queue_view s' = queue_view s \<Longrightarrow> mq_at s' = mq_at s"
  by (simp add: queue_view_def)

lemma handleMessageQueue_main_at: "handleMessageQueue s = Some s' \<Longrightarrow> main_at s' = main_at s"
  by (auto simp: handleMessageQueue_def split: mq_pc.splits list.splits if_splits)

lemma handleMessageQueue_not_return: "handleMessageQueue s = Some s' \<Longrightarrow> mq_at s' \<noteq> MQ_return"
  by (auto simp: handleMessageQueue_def split: mq_pc.splits list.splits if_splits)

lemma main_at_close_fd [simp]: "main_at (close_fd fd s) = main_at s"
  by (simp add: close_fd_def)

lemma main_at_set_handler [simp]: "main_at (set_handler i h s) = main_at s"
  by (simp add: set_handler_def)

lemma handleClient_main_at: "handleClient i s = Some s' \<Longrightarrow> main_at s' = main_at s"
  unfolding handleClient_def Let_def
  by (auto split: if_splits hc_pc.splits option.splits)

lemma recv_main_at: "handleClient_recv i n data s = Some s' \<Longrightarrow> main_at s' = main_at s"
  by (auto simp: handleClient_recv_def Let_def split: if_splits)

lemma start_main_at: "handleClientWrapper i v s = Some s' \<Longrightarrow> main_at s' = main_at s"
  by (auto simp: handleClientWrapper_def Let_def split: if_splits)

lemma listen_main_at:
  "startListening_listen r s = Some s' \<Longrightarrow> main_at s' = M_accept \<or> main_at s' = M_cin 0"
  by (auto simp: startListening_listen_def caught_def split: if_splits)

lemma accept_main_at:
  "startListening_accept fd ok buf s = Some s' \<Longrightarrow> main_at s' = M_accept \<or> main_at s' = M_cin 0"
  by (auto simp: startListening_accept_def caught_def Let_def split: if_splits)

lemma cin_main_at:
  "startServer_cin ans sr br s = Some s' \<Longrightarrow> main_at s' \<noteq> D_close \<and> main_at s' \<noteq> D_done"
  unfolding startServer_cin_def Let_def
  by (auto split: main_pc.splits if_splits outcome.splits)

lemma dtor_main_at:
  "Server_dtor s = Some s' \<Longrightarrow> never_inv s \<Longrightarrow> main_at s' \<noteq> D_close \<and> main_at s' \<noteq> D_done"
  by (auto simp: Server_dtor_def never_inv_def split: main_pc.splits list.splits if_splits)

lemma never_step:
  assumes "never_inv s" and "step a s = Some s'"
  shows "never_inv s'"
proof (cases a)
  case MQ
  with assms(2) have "handleMessageQueue s = Some s'" by (simp add: step_def)
  from handleMessageQueue_main_at [OF this] handleMessageQueue_not_return [OF this] assms(1)
  show ?thesis by (simp add: never_inv_def)
next
  case (Start i v)
  with assms(2) have "handleClientWrapper i v s = Some s'" by (simp add: step_def)
  from start_main_at [OF this] view_mq_at [OF start_view [OF this]] assms(1)
  show ?thesis by (simp add: never_inv_def)
next
  case (Recv i n data)
  with assms(2) have "handleClient_recv i n data s = Some s'" by (simp add: step_def)
  from recv_main_at [OF this] view_mq_at [OF recv_view [OF this]] assms(1)
  show ?thesis by (simp add: never_inv_def)
next
  case (HC i)
  with assms(2) have h: "handleClient i s = Some s'" by (simp add: step_def)
  have "mq_at s' = mq_at s"
  proof (cases "hc_at (handlers s ! i) = HC_push")
    case True
    from handleClient_push [OF h True] show ?thesis by (auto simp: queue_view_def)
  next
    case False
    from handleClient_view [OF h False] show ?thesis by (rule view_mq_at)
  qed
  with handleClient_main_at [OF h] assms(1) show ?thesis by (simp add: never_inv_def)
next
  case (Listen r)
  with assms(2) have "startListening_listen r s = Some s'" by (simp add: step_def)
  from listen_main_at [OF this] view_mq_at [OF listen_view [OF this]] assms(1)
  show ?thesis by (auto simp: never_inv_def)
next
  case (Accept fd ok buf)
  with assms(2) have "startListening_accept fd ok buf s = Some s'" by (simp add: step_def)
  from accept_main_at [OF this] view_mq_at [OF accept_view [OF this]] assms(1)
  show ?thesis by (auto simp: never_inv_def)
next
  case (Cin ans sr br)
  with assms(2) have "startServer_cin ans sr br s = Some s'" by (simp add: step_def)
  from cin_main_at [OF this] view_mq_at [OF cin_view [OF this]] assms(1)
  show ?thesis by (simp add: never_inv_def)
next
  case Dtor
  with assms(2) have "Server_dtor s = Some s'" by (simp add: step_def)
  from dtor_main_at [OF this assms(1)] view_mq_at [OF dtor_view [OF this]] assms(1)
  show ?thesis by (simp add: never_inv_def)
qed

lemma never_run: "never_inv s \<Longrightarrow> run acts s = Some s' \<Longrightarrow> never_inv s'"
  by (induction acts arbitrary: s) (auto split: option.splits dest: never_step)

lemma createAndBindSocket_Returns_main_at:
  "createAndBindSocket sr br s = Returns s' \<Longrightarrow> main_at s' = main_at s"
  by (auto simp: createAndBindSocket_def Let_def split: if_splits)

lemma never_ctor:
  assumes "Server_ctor sr br ok (blank Port g ofds) = Returns s0"
  shows "never_inv s0"
proof -
  from assms have "main_at s0 = M_listen"
    by (auto simp: Server_ctor_def split: outcome.splits if_splits
        dest!: createAndBindSocket_Returns_main_at) (simp add: blank_def)
  with ctor_view [OF assms] show ?thesis
    by (simp add: never_inv_def queue_view_def)
qed

text \<open>
  The consumer always has a next statement to execute, unless it waits for the mutex:
  in particular front and pop are never called on an empty queue.
\<close>

lemma consumer_has_a_step:
  assumes "fifo_inv s" and "mq_at s \<noteq> MQ_return"
  shows "(\<exists>s'. step MQ s = Some s') \<or> (mq_at s = MQ_lock \<and> mutex s \<noteq> None)"
  using assms
  by (cases "mq_at s"; cases "messageQueue s")
     (auto simp: step_def handleMessageQueue_def fifo_inv_def)

lemma consumer_never_stuck:
  assumes "Server_ctor sr br ok (blank Port g ofds) = Returns s0" and "run acts s0 = Some s"
  shows "(\<exists>s'. step MQ s = Some s') \<or> (mq_at s = MQ_lock \<and> mutex s \<noteq> None)"
proof -
  from never_run [OF never_ctor [OF assms(1)] assms(2)] have "mq_at s \<noteq> MQ_return"
    by (simp add: never_inv_def)
  with fifo_run [OF fifo_ctor [OF assms(1)] assms(2)] show ?thesis
    by (rule consumer_has_a_step)
qed

subsection \<open>Mutual exclusion\<close>

lemma lock_view_update [simp]:
  "lock_view (s\<lparr>cout := a\<rparr>) = lock_view s"
  "lock_view (s\<lparr>cerr := a\<rparr>) = lock_view s"
  "lock_view (s\<lparr>main_at := b\<rparr>) = lock_view s"
  "lock_view (s\<lparr>clientsMap := c\<rparr>) = lock_view s"
  "lock_view (s\<lparr>open_fds := e\<rparr>) = lock_view s"
  "lock_view (s\<lparr>listening := f\<rparr>) = lock_view s"
  "lock_view (s\<lparr>bound := g\<rparr>) = lock_view s"
  "lock_view (s\<lparr>threadData := t\<rparr>) = lock_view s"
  "lock_view (s\<lparr>serverSocket := h\<rparr>) = lock_view s"
  "lock_view (s\<lparr>messageQueue := q\<rparr>) = lock_view s"
  "lock_view (s\<lparr>enqueued := q\<rparr>) = lock_view s"
  "lock_view (s\<lparr>dequeued := q\<rparr>) = lock_view s"
  "lock_view (s\<lparr>reported := q\<rparr>) = lock_view s"
  by (simp_all add: lock_view_def)

lemma lock_view_close_fd [simp]: "lock_view (close_fd fd s) = lock_view s"
  by (simp add: close_fd_def)

lemma lock_view_caught [simp]: "lock_view (caught ex s) = lock_view s"
  by (simp add: caught_def)

lemma lock_viewD:
  "lock_view s = (m, pc, hs) \<Longrightarrow> mutex s = m \<and> mq_at s = pc \<and> handlers s = hs"
  by (simp add: lock_view_def)

lemma mutex_inv_view: "lock_view s' = lock_view s \<Longrightarrow> mutex_inv s' = mutex_inv s"
  by (simp add: lock_view_def mutex_inv_def)

lemma createAndBindSocket_Returns_lock:
  "createAndBindSocket sr br s = Returns s' \<Longrightarrow> lock_view s' = lock_view s"
  by (auto simp: createAndBindSocket_def Let_def split: if_splits)

lemma createAndBindSocket_Throws_lock:
  "createAndBindSocket sr br s = Throws ex s' \<Longrightarrow> lock_view s' = lock_view s"
  by (auto simp: createAndBindSocket_def Let_def split: if_splits)

lemma listen_lock: "startListening_listen r s = Some s' \<Longrightarrow> lock_view s' = lock_view s"
  by (auto simp: startListening_listen_def split: if_splits)

lemma cin_lock: "startServer_cin ans sr br s = Some s' \<Longrightarrow> lock_view s' = lock_view s"
  unfolding startServer_cin_def Let_def
  by (auto split: main_pc.splits if_splits outcome.splits
      dest!: createAndBindSocket_Returns_lock createAndBindSocket_Throws_lock)

lemma dtor_lock: "Server_dtor s = Some s' \<Longrightarrow> lock_view s' = lock_view s"
  by (auto simp: Server_dtor_def split: main_pc.splits list.splits if_splits)

lemma accept_lock:
  assumes "startListening_accept fd ok buf s = Some s'"
  shows "lock_view s' = lock_view s \<or>
         (\<exists>h. hc_at h = HC_start \<and> lock_view s' = (mutex s, mq_at s, handlers s @ [h]))"
  using assms
  by (auto simp: startListening_accept_def Let_def lock_view_def caught_def split: if_splits)

lemma mutex_ok_spawn:
  assumes "hc_at h = HC_start"
  shows "mutex_ok m pc (hs @ [h]) = mutex_ok m pc hs"
proof -
  have nth: "\<And>j. j < Suc (length hs) \<Longrightarrow>
      in_cs_hc (hc_at ((hs @ [h]) ! j)) = (j < length hs \<and> in_cs_hc (hc_at (hs ! j)))"
    using assms by (auto simp: nth_append in_cs_hc_def less_Suc_eq)
  show ?thesis
    unfolding mutex_ok_def
    by (auto simp: nth less_Suc_eq split: option.splits tid.splits)
qed

lemma mutex_ok_same:
  assumes "i < length hs" and "in_cs_hc (hc_at h') = in_cs_hc (hc_at (hs ! i))"
  shows "mutex_ok m pc (hs[i := h']) = mutex_ok m pc hs"
proof -
  have nth: "\<And>j. j < length hs \<Longrightarrow> in_cs_hc (hc_at (hs[i := h'] ! j)) = in_cs_hc (hc_at (hs ! j))"
    using assms by (auto simp: nth_list_update)
  show ?thesis
    unfolding mutex_ok_def
    by (auto simp: nth split: option.splits tid.splits)
qed

lemma mutex_ok_hc_lock:
  assumes "mutex_ok None pc hs" and "i < length hs" and "in_cs_hc (hc_at h')"
  shows "mutex_ok (Some (T_hc i)) pc (hs[i := h'])"
  using assms by (auto simp: mutex_ok_def nth_list_update)

lemma mutex_ok_hc_unlock:
  assumes "mutex_ok m pc hs" and "i < length hs" and "in_cs_hc (hc_at (hs ! i))"
    and "\<not> in_cs_hc (hc_at h')"
  shows "mutex_ok None pc (hs[i := h'])"
  using assms by (auto simp: mutex_ok_def nth_list_update split: option.splits tid.splits)

lemma mutex_ok_mq_same:
  assumes "mutex_ok m pc hs" and "in_cs_mq pc' = in_cs_mq pc"
  shows "mutex_ok m pc' hs"
  using assms by (auto simp: mutex_ok_def split: option.splits tid.splits)

lemma mutex_handleMessageQueue:
  assumes "mutex_inv s" and "handleMessageQueue s = Some s'"
  shows "mutex_inv s'"
proof (cases "mq_at s")
  case MQ_empty
  with assms(2) have "lock_view s' = (mutex s, mq_at s', handlers s)"
    and "in_cs_mq (mq_at s') = in_cs_mq (mq_at s)"
    by (auto simp: handleMessageQueue_def lock_view_def in_cs_mq_def split: if_splits)
  with assms(1) show ?thesis
    by (auto simp: mutex_inv_def dest!: lock_viewD intro: mutex_ok_mq_same)
next
  case MQ_usleep
  with assms(2) have "lock_view s' = (mutex s, mq_at s', handlers s)"
    and "in_cs_mq (mq_at s') = in_cs_mq (mq_at s)"
    by (auto simp: handleMessageQueue_def lock_view_def in_cs_mq_def)
  with assms(1) show ?thesis
    by (auto simp: mutex_inv_def dest!: lock_viewD intro: mutex_ok_mq_same)
next
  case MQ_lock
  with assms(2) have "lock_view s' = (Some T_mq, MQ_front, handlers s)" and "mutex s = None"
    by (auto simp: handleMessageQueue_def lock_view_def split: if_splits)
  with assms(1) show ?thesis
    by (auto simp: mutex_inv_def mutex_ok_def in_cs_mq_def dest!: lock_viewD)
next
  case MQ_front
  with assms(2) have "lock_view s' = (mutex s, mq_at s', handlers s)"
    and "in_cs_mq (mq_at s') = in_cs_mq (mq_at s)"
    by (auto simp: handleMessageQueue_def lock_view_def in_cs_mq_def split: list.splits)
  with assms(1) show ?thesis
    by (auto simp: mutex_inv_def dest!: lock_viewD intro: mutex_ok_mq_same)
next
  case (MQ_pop m)
  with assms(2) have "lock_view s' = (mutex s, mq_at s', handlers s)"
    and "in_cs_mq (mq_at s') = in_cs_mq (mq_at s)"
    by (auto simp: handleMessageQueue_def lock_view_def in_cs_mq_def split: list.splits)
  with assms(1) show ?thesis
    by (auto simp: mutex_inv_def dest!: lock_viewD intro: mutex_ok_mq_same)
next
  case (MQ_unlock m)
  with assms(2) have "lock_view s' = (None, MQ_cout m, handlers s)"
    by (auto simp: handleMessageQueue_def lock_view_def)
  with assms(1) MQ_unlock show ?thesis
    by (auto simp: mutex_inv_def mutex_ok_def in_cs_mq_def dest!: lock_viewD split: option.splits tid.splits)
next
  case (MQ_cout m)
  with assms(2) have "lock_view s' = (mutex s, mq_at s', handlers s)"
    and "in_cs_mq (mq_at s') = in_cs_mq (mq_at s)"
    by (auto simp: handleMessageQueue_def lock_view_def in_cs_mq_def)
  with assms(1) show ?thesis
    by (auto simp: mutex_inv_def dest!: lock_viewD intro: mutex_ok_mq_same)
next
  case MQ_return
  with assms(2) show ?thesis
    by (simp add: handleMessageQueue_def)
qed

lemma mutex_set_handler:
  assumes "mutex_inv s" and "i < length (handlers s)"
    and "in_cs_hc (hc_at h') = in_cs_hc (hc_at (handlers s ! i))"
    and "lock_view s' = (mutex s, mq_at s, (handlers s)[i := h'])"
  shows "mutex_inv s'"
  using assms by (auto simp: mutex_inv_def mutex_ok_same dest!: lock_viewD)

lemma lock_view_set_handler:
  "lock_view (set_handler i h s) = (mutex s, mq_at s, (handlers s)[i := h])"
  by (simp add: set_handler_def lock_view_def)

lemma mutex_recv:
  assumes "mutex_inv s" and "handleClient_recv i n data s = Some s'"
  shows "mutex_inv s'"
proof -
  define h' where "h' = (handlers s ! i)
    \<lparr>bytesRead := n,
      buffer := (if 0 < n then data @ drop (length data) (buffer (handlers s ! i))
                 else buffer (handlers s ! i)),
      hc_at := (if 0 < n then HC_lock else HC_report)\<rparr>"
  from assms(2) have i: "i < length (handlers s)" and pc: "hc_at (handlers s ! i) = HC_recv"
    and s': "s' = set_handler i h' s"
    by (auto simp: handleClient_recv_def Let_def h'_def split: if_splits)
  have "in_cs_hc (hc_at h') = in_cs_hc (hc_at (handlers s ! i))"
    by (simp add: h'_def pc in_cs_hc_def)
  from mutex_set_handler [OF assms(1) i this] show ?thesis
    by (simp add: s' lock_view_set_handler)
qed

lemma mutex_start:
  assumes "mutex_inv s" and "handleClientWrapper i v s = Some s'"
  shows "mutex_inv s'"
proof -
  define h' where "h' = (handlers s ! i)\<lparr>clientSocket := v, hc_at := HC_recv\<rparr>"
  from assms(2) have i: "i < length (handlers s)" and pc: "hc_at (handlers s ! i) = HC_start"
    and s': "s' = set_handler i h' s"
    by (auto simp: handleClientWrapper_def Let_def h'_def split: if_splits)
  have "in_cs_hc (hc_at h') = in_cs_hc (hc_at (handlers s ! i))"
    by (simp add: h'_def pc in_cs_hc_def)
  from mutex_set_handler [OF assms(1) i this] show ?thesis
    by (simp add: s' lock_view_set_handler)
qed

lemma mutex_handleClient:
  assumes "mutex_inv s" and "handleClient i s = Some s'"
  shows "mutex_inv s'"
proof -
  from assms(2) have i: "i < length (handlers s)"
    by (auto simp: handleClient_def split: if_splits)
  let ?h = "handlers s ! i"
  from assms(2) i have step: "(case hc_at ?h of
           HC_start \<Rightarrow> None
         | HC_recv \<Rightarrow> None
         | HC_lock \<Rightarrow>
             (if mutex s = None
              then Some (set_handler i (?h\<lparr>hc_at := HC_push\<rparr>) (s\<lparr>mutex := Some (T_hc i)\<rparr>))
              else None)
         | HC_push \<Rightarrow>
             (case c_str (buffer ?h) of
                None \<Rightarrow> None
              | Some payload \<Rightarrow>
                  Some (set_handler i (?h\<lparr>hc_at := HC_unlock\<rparr>)
                         (s\<lparr>messageQueue := messageQueue s @ [(clientSocket ?h, payload)],
                            enqueued := enqueued s @ [(clientSocket ?h, payload)]\<rparr>)))
         | HC_unlock \<Rightarrow>
             Some (set_handler i (?h\<lparr>hc_at := HC_memset\<rparr>) (s\<lparr>mutex := None\<rparr>))
         | HC_memset \<Rightarrow>
             Some (set_handler i (?h\<lparr>buffer := replicate 256 NUL, hc_at := HC_recv\<rparr>) s)
         | HC_report \<Rightarrow>
             Some (set_handler i (?h\<lparr>hc_at := HC_close\<rparr>)
                    (if bytesRead ?h \<le> 0
                     then s\<lparr>cout := cout s @ ''Client '' @ dec_int (clientSocket ?h)
                                     @ '' disconnected.'' @ endl\<rparr>
                     else s))
         | HC_close \<Rightarrow>
             Some (set_handler i (?h\<lparr>hc_at := HC_return\<rparr>) (close_fd (clientSocket ?h) s))
         | HC_return \<Rightarrow> None) = Some s'"
    by (simp add: handleClient_def Let_def)
  show ?thesis
  proof (cases "hc_at ?h")
    case HC_start
    with step show ?thesis by simp
  next
    case HC_recv
    with step show ?thesis by simp
  next
    case HC_lock
    with step have m: "mutex s = None"
      and v: "lock_view s' = (Some (T_hc i), mq_at s, (handlers s)[i := ?h\<lparr>hc_at := HC_push\<rparr>])"
      by (auto simp: set_handler_def lock_view_def split: if_splits)
    from assms(1) m have "mutex_ok None (mq_at s) (handlers s)"
      by (simp add: mutex_inv_def)
    from mutex_ok_hc_lock [OF this i, of "?h\<lparr>hc_at := HC_push\<rparr>"] v show ?thesis
      by (auto simp: mutex_inv_def in_cs_hc_def dest!: lock_viewD)
  next
    case HC_push
    with step have
      v: "lock_view s' = (mutex s, mq_at s, (handlers s)[i := ?h\<lparr>hc_at := HC_unlock\<rparr>])"
      by (auto simp: set_handler_def lock_view_def split: option.splits)
    have "in_cs_hc (hc_at (?h\<lparr>hc_at := HC_unlock\<rparr>)) = in_cs_hc (hc_at ?h)"
      by (simp add: HC_push in_cs_hc_def)
    from mutex_set_handler [OF assms(1) i this v] show ?thesis .
  next
    case HC_unlock
    with step have
      v: "lock_view s' = (None, mq_at s, (handlers s)[i := ?h\<lparr>hc_at := HC_memset\<rparr>])"
      by (auto simp: set_handler_def lock_view_def)
    from assms(1) have "mutex_ok (mutex s) (mq_at s) (handlers s)"
      by (simp add: mutex_inv_def)
    from mutex_ok_hc_unlock [OF this i, of "?h\<lparr>hc_at := HC_memset\<rparr>"] v HC_unlock
    show ?thesis
      by (auto simp: mutex_inv_def in_cs_hc_def dest!: lock_viewD)
  next
    case HC_memset
    with step have v: "lock_view s' =
        (mutex s, mq_at s, (handlers s)[i := ?h\<lparr>buffer := replicate 256 NUL, hc_at := HC_recv\<rparr>])"
      by (auto simp: set_handler_def lock_view_def)
    have "in_cs_hc (hc_at (?h\<lparr>buffer := replicate 256 NUL, hc_at := HC_recv\<rparr>)) = in_cs_hc (hc_at ?h)"
      by (simp add: HC_memset in_cs_hc_def)
    from mutex_set_handler [OF assms(1) i this v] show ?thesis .
  next
    case HC_report
    with step have
      v: "lock_view s' = (mutex s, mq_at s, (handlers s)[i := ?h\<lparr>hc_at := HC_close\<rparr>])"
      by (auto simp: set_handler_def lock_view_def)
    have "in_cs_hc (hc_at (?h\<lparr>hc_at := HC_close\<rparr>)) = in_cs_hc (hc_at ?h)"
      by (simp add: HC_report in_cs_hc_def)
    from mutex_set_handler [OF assms(1) i this v] show ?thesis .
  next
    case HC_close
    with step have
      v: "lock_view s' = (mutex s, mq_at s, (handlers s)[i := ?h\<lparr>hc_at := HC_return\<rparr>])"
      by (auto simp: set_handler_def lock_view_def close_fd_def)
    have "in_cs_hc (hc_at (?h\<lparr>hc_at := HC_return\<rparr>)) = in_cs_hc (hc_at ?h)"
      by (simp add: HC_close in_cs_hc_def)
    from mutex_set_handler [OF assms(1) i this v] show ?thesis .
  next
    case HC_return
    with step show ?thesis by simp
  qed
qed

lemma mutex_step:
  assumes "mutex_inv s" and "step a s = Some s'"
  shows "mutex_inv s'"
proof (cases a)
  case MQ
  with assms show ?thesis by (auto simp: step_def intro: mutex_handleMessageQueue)
next
  case (Start i v)
  with assms show ?thesis by (auto simp: step_def intro: mutex_start)
next
  case (Recv i n data)
  with assms show ?thesis by (auto simp: step_def intro: mutex_recv)
next
  case (HC i)
  with assms show ?thesis by (auto simp: step_def intro: mutex_handleClient)
next
  case (Listen r)
  with assms(2) have "lock_view s' = lock_view s"
    by (auto simp: step_def intro: listen_lock)
  from mutex_inv_view [OF this] assms(1) show ?thesis by blast
next
  case (Accept fd ok buf)
  with assms(2) have "startListening_accept fd ok buf s = Some s'"
    by (simp add: step_def)
  from accept_lock [OF this] show ?thesis
  proof
    assume "lock_view s' = lock_view s"
    from mutex_inv_view [OF this] assms(1) show ?thesis by blast
  next
    assume "\<exists>h. hc_at h = HC_start \<and> lock_view s' = (mutex s, mq_at s, handlers s @ [h])"
    with assms(1) show ?thesis
      by (auto simp: mutex_inv_def mutex_ok_spawn dest!: lock_viewD)
  qed
next
  case (Cin ans sr br)
  with assms(2) have "lock_view s' = lock_view s"
    by (auto simp: step_def intro: cin_lock)
  from mutex_inv_view [OF this] assms(1) show ?thesis by blast
next
  case Dtor
  with assms(2) have "lock_view s' = lock_view s"
    by (auto simp: step_def intro: dtor_lock)
  from mutex_inv_view [OF this] assms(1) show ?thesis by blast
qed

lemma mutex_run: "mutex_inv s \<Longrightarrow> run acts s = Some s' \<Longrightarrow> mutex_inv s'"
  by (induction acts arbitrary: s) (auto split: option.splits dest: mutex_step)

lemma mutex_ctor:
  assumes "Server_ctor sr br ok (blank Port g ofds) = Returns s0"
  shows "mutex_inv s0"
proof -
  from assms have "lock_view s0 = lock_view (blank Port g ofds)"
    by (auto simp: Server_ctor_def split: outcome.splits if_splits
        dest!: createAndBindSocket_Returns_lock)
  then show ?thesis
    by (simp add: lock_view_def mutex_inv_def blank_def mutex_ok_def in_cs_mq_def)
qed

text \<open>
  Every access to the queue other than the emptiness test of line 134 is made by the
  thread that holds the mutex. This is what makes it sound to take push, front and pop
  as single transitions.
\<close>

lemma locked_accesses:
  assumes "Server_ctor sr br ok (blank Port g ofds) = Returns s0" and "run acts s0 = Some s"
    and "accesses_queue a s"
  shows "(a = MQ \<and> mq_at s = MQ_empty) \<or> mutex s = Some (actor a)"
proof -
  from mutex_run [OF mutex_ctor [OF assms(1)] assms(2)]
  have inv: "mutex_ok (mutex s) (mq_at s) (handlers s)"
    by (simp add: mutex_inv_def)
  show ?thesis
  proof (cases a)
    case MQ
    with assms(3) inv show ?thesis
      by (auto simp: accesses_queue_def actor_def mutex_ok_def in_cs_mq_def
          split: mq_pc.splits option.splits tid.splits)
  next
    case (HC i)
    with assms(3) have "i < length (handlers s)" "in_cs_hc (hc_at (handlers s ! i))"
      by (simp_all add: accesses_queue_def in_cs_hc_def)
    with inv HC show ?thesis
      by (auto simp: actor_def mutex_ok_def split: option.splits tid.splits)
  qed (use assms(3) in \<open>simp_all add: accesses_queue_def\<close>)
qed

text \<open>No statement of a handler or of the consumer changes the registry.\<close>

lemma workers_keep_clientsMap:
  assumes "a = MQ \<or> a = Start i v \<or> a = HC i \<or> a = Recv i n data"
    and "step a s = Some s'"
  shows "clientsMap s' = clientsMap s"
  using assms
  by (auto simp: step_def handleMessageQueue_def handleClientWrapper_def handleClient_def
      handleClient_recv_def set_handler_def close_fd_def Let_def
      split: mq_pc.splits hc_pc.splits list.splits option.splits if_splits)

text \<open>
  When pthread_create fails, the accept loop throws with the accepted descriptor still
  open, whatever the state.
\<close>

lemma spawn_failure_never_closes:
  assumes "main_at s = M_accept" and "fresh_fd fd s" and "fd \<noteq> - 1" and "length buf = 256"
  shows "\<exists>s'. step (Accept fd False buf) s = Some s' \<and> fd \<in> open_fds s' \<and>
              handlers s' = handlers s \<and> clientsMap s' = clientsMap s \<and> main_at s' = M_cin 0"
  using assms
  by (simp add: step_def startListening_accept_def caught_def Let_def)

section \<open>The claims\<close>

text \<open>
  In what follows a reachable state is one that a sequence of transitions leads to from a
  state in which the constructor has returned.
\<close>

subsection \<open>C1: the queue is first in, first out\<close>

text \<open>
  C1. In every reachable state, whatever the number of handlers and however their
  statements interleave with the consumer's: the messages pushed so far are the messages
  popped so far, in the same order, followed by the queue's contents, so the consumer
  pops messages in exactly the order in which they were pushed; and the messages the
  consumer has printed are an initial part of those it popped, in the same order.
\<close>

theorem queue_is_fifo:
  assumes "Server_ctor sr br ok (blank Port g ofds) = Returns s0"
    and "run acts s0 = Some s"
  shows "enqueued s = dequeued s @ messageQueue s \<and>
         prefix (dequeued s) (enqueued s) \<and>
         prefix (reported s) (dequeued s)"
  using fifo_run [OF fifo_ctor [OF assms(1)] assms(2)]
  by (auto simp: fifo_inv_def)

theorem queue_is_fifo_witness:
  "Server_ctor 3 0 True (blank 9000 (- 1) {0, 1, 2}) = Returns boot \<and>
   (\<exists>s. run two_clients boot = Some s \<and>
        reported s = [(4, ''hello'' @ endl), (5, ''world'' @ endl)] \<and>
        enqueued s = dequeued s @ messageQueue s \<and>
        prefix (dequeued s) (enqueued s) \<and> prefix (reported s) (dequeued s))"
proof -
  from two_clients_run obtain s where r: "run two_clients boot = Some s"
    and rep: "reported s = [(4, ''hello'' @ endl), (5, ''world'' @ endl)]"
    by blast
  from queue_is_fifo [OF boot_ctor r] rep r boot_ctor show ?thesis
    by blast
qed

subsection \<open>C2: the emptiness test is made without the mutex\<close>

text \<open>
  C2. The claim is that no read of the queue, the emptiness test included, happens
  outside the lock. The first statement the consumer executes, line 134, calls
  messageQueue.empty() while no thread holds the mutex; the lock is taken on line 138.
  The theorem evaluates that statement in the state the constructor leaves.
\<close>

theorem emptiness_test_without_mutex:
  "Server_ctor 3 0 True (blank 9000 (- 1) {0, 1, 2}) = Returns boot \<and>
   accesses_queue MQ boot \<and> mutex boot = None \<and>
   step MQ boot = Some (boot\<lparr>mq_at := MQ_usleep\<rparr>)"
  using boot_ctor
  by (simp add: accesses_queue_def step_def handleMessageQueue_def) (simp add: boot_def)

subsection \<open>C3: a restart clears the registry but not the queue\<close>




subsection \<open>C4: the line the consumer prints\<close>

text \<open>
  C4, as amended. For every message (id, payload) at the head of the queue when the
  consumer reaches line 139, the consumer removes it and appends to the standard output
  exactly "Message from Client <id> : <payload>", with a space on both sides of the
  colon, the id in decimal, and nothing after the payload.
\<close>

theorem consumer_output_line:
  assumes "mq_at s = MQ_front" and "messageQueue s = (connectionId, payload) # q"
  shows "\<exists>s'. run [MQ, MQ, MQ, MQ] s = Some s' \<and>
              cout s' = cout s @ ''Message from Client '' @ dec_int connectionId @ '' : '' @ payload \<and>
              messageQueue s' = q \<and> mq_at s' = MQ_empty"
  using assms by (simp add: step_def handleMessageQueue_def)

theorem consumer_output_line_witness:
  "\<exists>s. run (take 17 two_clients) boot = Some s \<and>
       mq_at s = MQ_front \<and>
       messageQueue s = [(4, ''hello'' @ endl), (5, ''world'' @ endl)] \<and>
       (\<exists>s'. run [MQ, MQ, MQ, MQ] s = Some s' \<and>
             cout s' = cout s @ ''Message from Client '' @ dec_int 4 @ '' : '' @ (''hello'' @ endl) \<and>
             messageQueue s' = [(5, ''world'' @ endl)] \<and> mq_at s' = MQ_empty)"
proof -
  have "\<exists>s. run (take 17 two_clients) boot = Some s \<and> mq_at s = MQ_front \<and>
       messageQueue s = [(4, ''hello'' @ endl), (5, ''world'' @ endl)]"
    by (simp add: two_clients_def boot_def eval)
  then obtain s where r: "run (take 17 two_clients) boot = Some s" and pc: "mq_at s = MQ_front"
    and q: "messageQueue s = [(4, ''hello'' @ endl), (5, ''world'' @ endl)]"
    by blast
  from consumer_output_line [OF pc q] r pc q show ?thesis
    by blast
qed

text \<open>
  The claim as stated, with no space between the id and the colon, fails for client 4
  sending "hello" and a newline.
\<close>

theorem output_line_has_space_before_colon:
  "map_option cout (run (take 10 two_clients @ [MQ, MQ, MQ, MQ, MQ, MQ]) boot) =
     Some (''Server is listening for connections on Port 9000'' @ endl @
           ''Client 4 connected.'' @ endl @ ''Client 5 connected.'' @ endl @
           ''Message from Client 4 : hello'' @ endl) \<and>
   map_option cout (run (take 10 two_clients @ [MQ, MQ, MQ, MQ, MQ, MQ]) boot) \<noteq>
     Some (''Server is listening for connections on Port 9000'' @ endl @
           ''Client 4 connected.'' @ endl @ ''Client 5 connected.'' @ endl @
           ''Message from Client 4: hello'' @ endl)"
  by (simp add: two_clients_def boot_def eval)

subsection \<open>C5: a handler that ends leaves its registry entry\<close>

text \<open>
  C5, as amended. When a handler's recv returns zero or -1, the handler leaves its loop,
  prints "Client <id> disconnected.", closes its connection socket and returns, without
  another recv and without pushing anything. It does not remove or flag its entry:
  clientsMap is unchanged.
\<close>

theorem handler_exit_keeps_registry:
  assumes "i < length (handlers s)"
    and "hc_at (handlers s ! i) = HC_recv"
    and "n \<le> 0"
    and "recv_result (clientSocket (handlers s ! i)) n data s"
  shows "\<exists>s'. run [Recv i n data, HC i, HC i] s = Some s' \<and>
              hc_at (handlers s' ! i) = HC_return \<and>
              clientSocket (handlers s ! i) \<notin> open_fds s' \<and>
              cout s' = cout s @ ''Client '' @ dec_int (clientSocket (handlers s ! i))
                          @ '' disconnected.'' @ endl \<and>
              clientsMap s' = clientsMap s \<and>
              messageQueue s' = messageQueue s"
  using assms
  by (simp add: step_def handleClient_recv_def handleClient_def set_handler_def close_fd_def Let_def)

theorem handler_exit_keeps_registry_witness:
  "\<exists>s. run [Listen 0, Accept 4 True (replicate 256 NUL), Start 0 4] boot = Some s \<and>
       0 < length (handlers s) \<and> hc_at (handlers s ! 0) = HC_recv \<and> (0::int) \<le> 0 \<and>
       recv_result (clientSocket (handlers s ! 0)) 0 [] s \<and>
       (\<exists>s'. run [Recv 0 0 [], HC 0, HC 0] s = Some s' \<and>
              hc_at (handlers s' ! 0) = HC_return \<and>
              clientSocket (handlers s ! 0) \<notin> open_fds s' \<and>
              cout s' = cout s @ ''Client '' @ dec_int (clientSocket (handlers s ! 0))
                          @ '' disconnected.'' @ endl \<and>
              clientsMap s' = clientsMap s \<and>
              messageQueue s' = messageQueue s)"
proof -
  have "\<exists>s. run [Listen 0, Accept 4 True (replicate 256 NUL), Start 0 4] boot = Some s \<and>
       0 < length (handlers s) \<and> hc_at (handlers s ! 0) = HC_recv \<and>
       recv_result (clientSocket (handlers s ! 0)) 0 [] s"
    by (simp add: boot_def eval)
  then obtain s where r: "run [Listen 0, Accept 4 True (replicate 256 NUL), Start 0 4] boot = Some s"
    and h: "0 < length (handlers s)" "hc_at (handlers s ! 0) = HC_recv"
      "recv_result (clientSocket (handlers s ! 0)) 0 [] s"
    by blast
  have z: "(0::int) \<le> 0" by simp
  from handler_exit_keeps_registry [OF h(1) h(2) z h(3)] r h z show ?thesis
    by blast
qed

text \<open>
  The claim as stated fails: client 4 connects and closes; its handler has returned and
  its socket is closed, and the registry still holds the entry of 4.
\<close>

theorem registry_entry_survives_disconnect:
  "map_option handlers
     (run [Listen 0, Accept 4 True (replicate 256 NUL), Start 0 4, Recv 0 0 [], HC 0, HC 0]
        boot)
     = Some [\<lparr>hc_at = HC_return, clientSocket = 4, buffer = replicate 256 NUL,
              bytesRead = 0\<rparr>] \<and>
   map_option open_fds
     (run [Listen 0, Accept 4 True (replicate 256 NUL), Start 0 4, Recv 0 0 [], HC 0, HC 0]
        boot)
     = Some {0, 1, 2, 3} \<and>
   map_option clientsMap
     (run [Listen 0, Accept 4 True (replicate 256 NUL), Start 0 4, Recv 0 0 [], HC 0, HC 0]
        boot)
     = Some [(4, 0)]"
  by (simp add: boot_def eval)

subsection \<open>C6: the accept loop has no limit\<close>

text \<open>
  C6, as amended. MAX_CLIENTS is only the backlog given to listen. The accept loop
  refuses no connection: whatever the number of live connections, a connection that
  accept returns and for which pthread_create succeeds is left open, is entered in the
  registry with the new thread, and the number of live connections grows by one.
\<close>

theorem accept_loop_has_no_limit:
  assumes "main_at s = M_accept"
    and "fresh_fd fd s" and "fd \<noteq> - 1"
    and "length buf = 256"
  shows "\<exists>s'. step (Accept fd True buf) s = Some s' \<and>
              main_at s' = M_accept \<and>
              open_fds s' = insert fd (open_fds s) \<and>
              (\<exists>h. handlers s' = handlers s @ [h] \<and> hc_at h = HC_start) \<and>
              map_of (clientsMap s') fd = Some (length (handlers s)) \<and>
              live_connections s' = live_connections s + 1"
proof -
  from assms(2,3) have "fd \<notin> open_fds s"
    by (simp add: fresh_fd_def)
  from live_connections_accept [OF this] assms show ?thesis
    by (simp add: step_def startListening_accept_def Let_def live_connections_def
        map_of_map_assign)
qed

theorem accept_loop_has_no_limit_witness:
  "\<exists>s. run (take 21 eleven_clients) boot = Some s \<and>
       main_at s = M_accept \<and> fresh_fd 14 s \<and> (14::int) \<noteq> - 1 \<and>
       length (replicate 256 NUL) = 256 \<and> live_connections s = 10 \<and>
       (\<exists>s'. step (Accept 14 True (replicate 256 NUL)) s = Some s' \<and>
              main_at s' = M_accept \<and>
              open_fds s' = insert 14 (open_fds s) \<and>
              (\<exists>h. handlers s' = handlers s @ [h] \<and> hc_at h = HC_start) \<and>
              map_of (clientsMap s') 14 = Some (length (handlers s)) \<and>
              live_connections s' = live_connections s + 1)"
proof -
  have "\<exists>s. run (take 21 eleven_clients) boot = Some s \<and>
       main_at s = M_accept \<and> fresh_fd 14 s \<and> live_connections s = 10"
    by (simp add: eleven_clients_def boot_def eval live_connections_def)
  then obtain s where r: "run (take 21 eleven_clients) boot = Some s"
    and h: "main_at s = M_accept" and f: "fresh_fd 14 s" and l: "live_connections s = 10"
    by blast
  have z: "(14::int) \<noteq> - 1" and b: "length (replicate 256 NUL) = 256"
    by simp_all
  from accept_loop_has_no_limit [OF h f z b] r h f z b l show ?thesis
    by blast
qed

text \<open>
  The claim as stated fails: eleven clients connect and none disconnects; all eleven
  are in the registry and their sockets are open.
\<close>

theorem eleven_live_connections:
  "map_option live_connections (run eleven_clients boot) = Some 11 \<and>
   MAX_CLIENTS < 11 \<and>
   map_option clientsMap (run eleven_clients boot) =
     Some [(4, 0), (5, 1), (6, 2), (7, 3), (8, 4), (9, 5), (10, 6), (11, 7), (12, 8),
           (13, 9), (14, 10)] \<and>
   map_option open_fds (run eleven_clients boot) =
     Some {0, 1, 2, 3, 4, 5, 6, 7, 8, 9, 10, 11, 12, 13, 14}"
  by (simp add: eleven_clients_def boot_def eval live_connections_def insert_commute)

subsection \<open>C7: what a read enqueues\<close>

text \<open>
  C7, as amended. For every successful read of n bytes, 1 <= n <= 255, into a buffer
  that is all zero (as line 205 leaves it after every read), exactly one message is
  pushed; its payload is the bytes read up to, and without, their first zero byte. The
  payload is the n bytes verbatim exactly when none of them is zero. The buffer is all
  zero again afterwards.
\<close>

theorem read_enqueues_c_string:
  assumes "i < length (handlers s)"
    and "hc_at (handlers s ! i) = HC_recv"
    and "buffer (handlers s ! i) = replicate 256 NUL"
    and "clientSocket (handlers s ! i) \<in> open_fds s"
    and "1 \<le> n" and "n \<le> 255" and "int (length data) = n"
    and "mutex s = None"
  shows "\<exists>s'. run [Recv i n data, HC i, HC i, HC i, HC i] s = Some s' \<and>
              messageQueue s' = messageQueue s @
                [(clientSocket (handlers s ! i), takeWhile (\<lambda>c. c \<noteq> NUL) data)] \<and>
              (takeWhile (\<lambda>c. c \<noteq> NUL) data = data) = (NUL \<notin> set data) \<and>
              hc_at (handlers s' ! i) = HC_recv \<and>
              buffer (handlers s' ! i) = replicate 256 NUL \<and>
              mutex s' = None"
proof -
  from assms(5-7) have "0 < 256 - length data" by simp
  then have "c_str (data @ replicate (256 - length data) NUL) =
      Some (takeWhile (\<lambda>c. c \<noteq> NUL) data)"
    by (rule c_str_padded)
  moreover have "(takeWhile (\<lambda>c. c \<noteq> NUL) data = data) = (NUL \<notin> set data)"
    by (auto simp: takeWhile_eq_all_conv)
  ultimately show ?thesis
    using assms
    by (simp add: step_def handleClient_recv_def handleClient_def set_handler_def
        recv_result_def Let_def)
qed

theorem read_enqueues_c_string_witness:
  "\<exists>s. run (take 10 two_clients) boot = Some s \<and>
       1 < length (handlers s) \<and> hc_at (handlers s ! 1) = HC_recv \<and>
       buffer (handlers s ! 1) = replicate 256 NUL \<and>
       clientSocket (handlers s ! 1) \<in> open_fds s \<and>
       (1::int) \<le> 6 \<and> (6::int) \<le> 255 \<and> int (length (''world'' @ endl)) = 6 \<and>
       mutex s = None \<and>
       (\<exists>s'. run [Recv 1 6 (''world'' @ endl), HC 1, HC 1, HC 1, HC 1] s = Some s' \<and>
              messageQueue s' = messageQueue s @
                [(clientSocket (handlers s ! 1), takeWhile (\<lambda>c. c \<noteq> NUL) (''world'' @ endl))] \<and>
              (takeWhile (\<lambda>c. c \<noteq> NUL) (''world'' @ endl) = ''world'' @ endl)
                = (NUL \<notin> set (''world'' @ endl)) \<and>
              hc_at (handlers s' ! 1) = HC_recv \<and>
              buffer (handlers s' ! 1) = replicate 256 NUL \<and>
              mutex s' = None)"
proof -
  have "\<exists>s. run (take 10 two_clients) boot = Some s \<and>
       1 < length (handlers s) \<and> hc_at (handlers s ! 1) = HC_recv \<and>
       buffer (handlers s ! 1) = replicate 256 NUL \<and>
       clientSocket (handlers s ! 1) \<in> open_fds s \<and> mutex s = None"
    by (simp add: two_clients_def boot_def eval)
  then obtain s where r: "run (take 10 two_clients) boot = Some s"
    and h: "1 < length (handlers s)" "hc_at (handlers s ! 1) = HC_recv"
      "buffer (handlers s ! 1) = replicate 256 NUL"
      "clientSocket (handlers s ! 1) \<in> open_fds s"
    and m: "mutex s = None"
    by blast
  have n: "(1::int) \<le> 6" "(6::int) \<le> 255" "int (length (''world'' @ endl)) = 6"
    by (simp_all add: endl_def)
  from read_enqueues_c_string [OF h n m] r h n m show ?thesis
    by blast
qed

text \<open>
  The claim as stated fails for the three bytes a, zero, b: the payload pushed is the
  single byte a.
\<close>

theorem payload_cut_at_zero_byte:
  "map_option messageQueue
     (run [Listen 0, Accept 4 True (replicate 256 NUL), Start 0 4,
           Recv 0 3 [CHR ''a'', NUL, CHR ''b''], HC 0, HC 0, HC 0, HC 0] boot)
     = Some [(4, ''a'')] \<and>
   map_option messageQueue
     (run [Listen 0, Accept 4 True (replicate 256 NUL), Start 0 4,
           Recv 0 3 [CHR ''a'', NUL, CHR ''b''], HC 0, HC 0, HC 0, HC 0] boot)
     \<noteq> Some [(4, [CHR ''a'', NUL, CHR ''b''])]"
  by (simp add: boot_def eval)

subsection \<open>C8: a failed thread creation leaks the socket\<close>

text \<open>
  C8. The claim is that the accepted socket is closed when the handler thread cannot be
  created. Line 183 throws before the close on line 184 is reached. The theorem
  evaluates the accept loop where accept returns 4 and pthread_create fails: startServer
  has caught and printed the error and waits at the prompt, no handler exists, and
  descriptor 4 is still open.
\<close>

theorem spawn_failure_leaves_socket_open:
  "map_option open_fds (run [Listen 0, Accept 4 False (replicate 256 NUL)] boot)
     = Some {0, 1, 2, 3, 4} \<and>
   map_option handlers (run [Listen 0, Accept 4 False (replicate 256 NUL)] boot) = Some [] \<and>
   map_option clientsMap (run [Listen 0, Accept 4 False (replicate 256 NUL)] boot) = Some [] \<and>
   map_option main_at (run [Listen 0, Accept 4 False (replicate 256 NUL)] boot)
     = Some (M_cin 0) \<and>
   map_option cerr (run [Listen 0, Accept 4 False (replicate 256 NUL)] boot)
     = Some (''Thread could not be created.'' @ endl)"
  by (simp add: boot_def eval insert_commute)

subsection \<open>C9: a failed accept still starts a handler\<close>

text \<open>
  C9. When accept returns -1, the iteration prints the failure and goes on: it stores -1
  in the PosixThreadData whose address it gives to pthread_create and, the thread
  having been created, stores an entry with key -1 and the new thread in clientsMap;
  the loop then accepts again.
\<close>

theorem failed_accept_still_spawns:
  assumes "main_at s = M_accept" and "length buf = 256"
  shows "\<exists>s'. step (Accept (- 1) True buf) s = Some s' \<and>
              main_at s' = M_accept \<and>
              cerr s' = cerr s @ ''Failed to accept request from a client.'' @ endl \<and>
              threadData s' = Some (- 1) \<and>
              (\<exists>h. handlers s' = handlers s @ [h] \<and> hc_at h = HC_start) \<and>
              clientsMap s' = map_assign (- 1) (length (handlers s)) (clientsMap s) \<and>
              map_of (clientsMap s') (- 1) = Some (length (handlers s)) \<and>
              open_fds s' = open_fds s"
  using assms
  by (simp add: step_def startListening_accept_def fresh_fd_def Let_def map_of_map_assign)

theorem failed_accept_still_spawns_witness:
  "\<exists>s. run [Listen 0] boot = Some s \<and>
       main_at s = M_accept \<and> length (replicate 256 NUL) = 256 \<and>
       (\<exists>s'. step (Accept (- 1) True (replicate 256 NUL)) s = Some s' \<and>
              main_at s' = M_accept \<and>
              cerr s' = cerr s @ ''Failed to accept request from a client.'' @ endl \<and>
              threadData s' = Some (- 1) \<and>
              (\<exists>h. handlers s' = handlers s @ [h] \<and> hc_at h = HC_start) \<and>
              clientsMap s' = map_assign (- 1) (length (handlers s)) (clientsMap s) \<and>
              map_of (clientsMap s') (- 1) = Some (length (handlers s)) \<and>
              open_fds s' = open_fds s \<and>
              clientsMap s' = [(- 1, 0)])"
proof -
  have "\<exists>s. run [Listen 0] boot = Some s \<and> main_at s = M_accept \<and> clientsMap s = [] \<and>
      handlers s = []"
    by (simp add: boot_def eval)
  then obtain s where r: "run [Listen 0] boot = Some s" and h: "main_at s = M_accept"
    and e: "clientsMap s = []" "handlers s = []"
    by blast
  have b: "length (replicate 256 NUL) = 256" by simp
  from failed_accept_still_spawns [OF h b] obtain s'
    where s': "step (Accept (- 1) True (replicate 256 NUL)) s = Some s'"
      "main_at s' = M_accept"
      "cerr s' = cerr s @ ''Failed to accept request from a client.'' @ endl"
      "threadData s' = Some (- 1)"
      "\<exists>h. handlers s' = handlers s @ [h] \<and> hc_at h = HC_start"
      "clientsMap s' = map_assign (- 1) (length (handlers s)) (clientsMap s)"
      "map_of (clientsMap s') (- 1) = Some (length (handlers s))"
      "open_fds s' = open_fds s"
    by blast
  from s'(6) e have "clientsMap s' = [(- 1, 0)]" by simp
  with s' r h b show ?thesis
    by blast
qed

subsection \<open>C10: the consumer never returns\<close>

text \<open>
  C10. In every reachable state the consumer thread has not returned from
  handleMessageQueue, and the destructor has not got past its join of the consumer
  thread on line 52: it has neither reached the close of the server socket nor finished.
\<close>

theorem consumer_never_returns:
  assumes "Server_ctor sr br ok (blank Port g ofds) = Returns s0" and "run acts s0 = Some s"
  shows "mq_at s \<noteq> MQ_return \<and> main_at s \<noteq> D_close \<and> main_at s \<noteq> D_done"
  using never_run [OF never_ctor [OF assms(1)] assms(2)]
  by (simp add: never_inv_def)

theorem consumer_never_returns_witness:
  "Server_ctor 3 0 True (blank 9000 (- 1) {0, 1, 2}) = Returns boot \<and>
   (\<exists>s. run shutdown_run boot = Some s \<and>
        main_at s = D_joinMQ \<and> step Dtor s = None \<and>
        mq_at s \<noteq> MQ_return \<and> main_at s \<noteq> D_close \<and> main_at s \<noteq> D_done)"
proof -
  have "\<exists>s. run shutdown_run boot = Some s \<and> main_at s = D_joinMQ \<and> step Dtor s = None"
    by (simp add: shutdown_run_def boot_def eval)
  then obtain s where r: "run shutdown_run boot = Some s"
    and h: "main_at s = D_joinMQ" "step Dtor s = None"
    by blast
  from consumer_never_returns [OF boot_ctor r] r h boot_ctor show ?thesis
    by blast
qed

end
